theory Spec2Isabelle
  imports Complex_Main "HOL-Library.Sublist"
begin

section \<open>Python arithmetic\<close>

text \<open>
  The program computes with Python floats. They are read here as real numbers: the
  operators below are the exact operations that the float operators approximate.
  Rounding of an individual float operation is not part of the model.

  \<^item> \<open>x // y\<close> on floats is the floor of the quotient, again a float;
  \<^item> \<open>x % y\<close> takes the sign of the divisor: \<open>x - y * floor (x / y)\<close>;
  \<^item> \<open>int x\<close> truncates towards zero.

  Every divisor in the program is one of the non-zero constants 360, 30 and 360/27, so
  ZeroDivisionError has no branch.
\<close>

definition py_floordiv :: "real \<Rightarrow> real \<Rightarrow> real" where
  "py_floordiv x y = of_int \<lfloor>x / y\<rfloor>"

definition py_mod :: "real \<Rightarrow> real \<Rightarrow> real" where
  "py_mod x y = x - y * of_int \<lfloor>x / y\<rfloor>"

definition py_int :: "real \<Rightarrow> int" where
  "py_int x = (if 0 \<le> x then \<lfloor>x\<rfloor> else \<lceil>x\<rceil>)"

text \<open>Python's \<open>round\<close>: to the nearest integer, a tie to the even neighbour.\<close>

definition py_round :: "real \<Rightarrow> int" where
  "py_round x =
     (let f = \<lfloor>x\<rfloor>; d = x - of_int f
      in if d < 1 / 2 then f else if 1 / 2 < d then f + 1 else if even f then f else f + 1)"

section \<open>Errors and containers\<close>

datatype error = ValueError | KeyError | IndexError | OverflowError

text \<open>A dict keeps its insertion order: an association list. \<open>d[k]\<close> raises KeyError.\<close>

definition dict_get :: "(string \<times> 'a) list \<Rightarrow> string \<Rightarrow> error + 'a" where
  "dict_get d k = (case map_of d k of None \<Rightarrow> Inl KeyError | Some v \<Rightarrow> Inr v)"

text \<open>\<open>xs[i]\<close>: a negative index counts from the end, out of range raises IndexError.\<close>

definition list_get :: "'a list \<Rightarrow> int \<Rightarrow> error + 'a" where
  "list_get xs i =
     (let j = (if i < 0 then i + int (length xs) else i)
      in if 0 \<le> j \<and> j < int (length xs) then Inr (xs ! nat j) else Inl IndexError)"

text \<open>The values a returned dict holds.\<close>

datatype pyval =
    PStr string
  | PFloat real
  | PInt int
  | PBool bool
  | PDict "(string \<times> pyval) list"

fun map_err :: "('a \<Rightarrow> error + 'b) \<Rightarrow> 'a list \<Rightarrow> error + 'b list" where
  "map_err f [] = Inr []"
| "map_err f (x # xs) =
     (case f x of
        Inl e \<Rightarrow> Inl e
      | Inr y \<Rightarrow> (case map_err f xs of Inl e \<Rightarrow> Inl e | Inr ys \<Rightarrow> Inr (y # ys)))"

section \<open>Strings\<close>

text \<open>
  Strings are ASCII here. \<open>s.split(c)\<close> cuts at every occurrence of the separator and
  keeps empty pieces.
\<close>

fun split_on :: "char \<Rightarrow> string \<Rightarrow> string list" where
  "split_on c [] = [[]]"
| "split_on c (x # xs) =
     (if x = c then [] # split_on c xs
      else (case split_on c xs of
              [] \<Rightarrow> [[x]]
            | w # ws \<Rightarrow> (x # w) # ws))"

text \<open>
  \<open>int(s)\<close> on a string: surrounding whitespace is stripped, one sign is allowed, then
  decimal digits follow, with single underscores allowed between digits. Anything else
  raises ValueError. Digits and whitespace outside ASCII, and the interpreter's limit on
  the number of digits, are not modelled.
\<close>

definition is_space :: "char \<Rightarrow> bool" where
  "is_space c = (of_char c \<in> {9, 10, 11, 12, 13, 28, 29, 30, 31, 32 :: nat})"

definition is_digit :: "char \<Rightarrow> bool" where
  "is_digit c = (48 \<le> (of_char c :: nat) \<and> (of_char c :: nat) \<le> 57)"

definition digit_val :: "char \<Rightarrow> nat" where
  "digit_val c = of_char c - 48"

definition strip :: "string \<Rightarrow> string" where
  "strip s = rev (dropWhile is_space (rev (dropWhile is_space s)))"

fun digits_val :: "bool \<Rightarrow> nat \<Rightarrow> string \<Rightarrow> nat option" where
  "digits_val need acc [] = (if need then None else Some acc)"
| "digits_val need acc (c # cs) =
     (if is_digit c then digits_val False (10 * acc + digit_val c) cs
      else if c = CHR ''_'' \<and> \<not> need then digits_val True acc cs
      else None)"

definition int_of_str :: "string \<Rightarrow> error + int" where
  "int_of_str s =
     (case strip s of
        [] \<Rightarrow> Inl ValueError
      | c # cs \<Rightarrow>
          if c = CHR ''-'' then
            (case digits_val True 0 cs of None \<Rightarrow> Inl ValueError | Some n \<Rightarrow> Inr (- int n))
          else if c = CHR ''+'' then
            (case digits_val True 0 cs of None \<Rightarrow> Inl ValueError | Some n \<Rightarrow> Inr (int n))
          else
            (case digits_val True 0 (c # cs) of None \<Rightarrow> Inl ValueError | Some n \<Rightarrow> Inr (int n)))"

text \<open>\<open>str(n)\<close> of an int, and the repr of a list of ints.\<close>

definition digit_char :: "nat \<Rightarrow> char" where
  "digit_char n = ''0123456789'' ! (n mod 10)"

fun str_nat :: "nat \<Rightarrow> string" where
  "str_nat n = (if n < 10 then [digit_char n] else str_nat (n div 10) @ [digit_char n])"

declare str_nat.simps [simp del]

definition str_int :: "int \<Rightarrow> string" where
  "str_int i = (if i < 0 then ''-'' @ str_nat (nat (- i)) else str_nat (nat i))"

fun join_comma :: "string list \<Rightarrow> string" where
  "join_comma [] = []"
| "join_comma [x] = x"
| "join_comma (x # y # ys) = x @ '', '' @ join_comma (y # ys)"

definition repr_int_list :: "int list \<Rightarrow> string" where
  "repr_int_list xs = ''['' @ join_comma (map str_int xs) @ '']''"

text \<open>
  \<open>f"{x:.3f}"\<close>: the value rounded to three decimals, a tie to the even neighbour, with
  the sign of \<open>x\<close>, the integer part, a point and exactly three decimals.
\<close>

definition fmt3 :: "real \<Rightarrow> string" where
  "fmt3 x =
     (let n = nat (py_round (\<bar>x\<bar> * 1000))
      in (if x < 0 then ''-'' else []) @ str_nat (n div 1000) @ ''.'' @
         [digit_char (n div 100), digit_char (n div 10), digit_char n])"

text \<open>
  The degree sign of the source file's string literals: the three bytes that the file
  holds at that place.
\<close>

definition deg_sign :: string where
  "deg_sign = [CHR 0xEC, CHR 0xA7, CHR 0xB8]"

section \<open>Calendar datetimes\<close>

text \<open>
  \<open>datetime\<close> and \<open>timedelta\<close> of Python's standard library, as far as the program uses
  them: the constructor's range checks, the proleptic Gregorian ordinal of a date and
  its inverse, and the subtraction of a duration. A duration is its total number of
  microseconds.
\<close>

record datetime =
  dt_year :: int
  dt_month :: int
  dt_day :: int
  dt_hour :: int
  dt_minute :: int
  dt_second :: int
  dt_microsecond :: int

definition MAXORDINAL :: int where
  "MAXORDINAL = 3652059"

definition DAY_US :: int where
  "DAY_US = 86400000000"

definition DAYS_IN_MONTH :: "int list" where
  "DAYS_IN_MONTH = [-1, 31, 28, 31, 30, 31, 30, 31, 31, 30, 31, 30, 31]"

definition DAYS_BEFORE_MONTH :: "int list" where
  "DAYS_BEFORE_MONTH = [-1, 0, 31, 59, 90, 120, 151, 181, 212, 243, 273, 304, 334]"

definition is_leap :: "int \<Rightarrow> bool" where
  "is_leap y = (y mod 4 = 0 \<and> (y mod 100 \<noteq> 0 \<or> y mod 400 = 0))"

definition days_before_year :: "int \<Rightarrow> int" where
  "days_before_year y = (let z = y - 1 in z * 365 + z div 4 - z div 100 + z div 400)"

definition days_in_month :: "int \<Rightarrow> int \<Rightarrow> int" where
  "days_in_month y m = (if m = 2 \<and> is_leap y then 29 else DAYS_IN_MONTH ! nat m)"

definition days_before_month :: "int \<Rightarrow> int \<Rightarrow> int" where
  "days_before_month y m = DAYS_BEFORE_MONTH ! nat m + (if 2 < m \<and> is_leap y then 1 else 0)"

definition ymd2ord :: "int \<Rightarrow> int \<Rightarrow> int \<Rightarrow> int" where
  "ymd2ord y m d = days_before_year y + days_before_month y m + d"

definition ord2ymd :: "int \<Rightarrow> int \<times> int \<times> int" where
  "ord2ymd n0 =
     (let n = n0 - 1;
          n400 = n div 146097; n = n mod 146097;
          y = n400 * 400 + 1;
          n100 = n div 36524; n = n mod 36524;
          n4 = n div 1461; n = n mod 1461;
          n1 = n div 365; n = n mod 365;
          y = y + n100 * 100 + n4 * 4 + n1
      in if n1 = 4 \<or> n100 = 4 then (y - 1, 12, 31)
         else
           (let leapyear = (n1 = 3 \<and> (n4 \<noteq> 24 \<or> n100 = 3));
                m = (n + 50) div 32;
                preceding = DAYS_BEFORE_MONTH ! nat m + (if 2 < m \<and> leapyear then 1 else 0)
            in if n < preceding then
                 (let m' = m - 1;
                      preceding' = preceding -
                        (DAYS_IN_MONTH ! nat m' + (if m' = 2 \<and> leapyear then 1 else 0))
                  in (y, m', n - preceding' + 1))
               else (y, m, n - preceding + 1)))"

text \<open>\<open>datetime(year, month, day, hour, minute)\<close>: every field out of range is a ValueError.\<close>

definition mk_datetime :: "int \<Rightarrow> int \<Rightarrow> int \<Rightarrow> int \<Rightarrow> int \<Rightarrow> error + datetime" where
  "mk_datetime y m d h mi =
     (if \<not> (1 \<le> y \<and> y \<le> 9999) then Inl ValueError
      else if \<not> (1 \<le> m \<and> m \<le> 12) then Inl ValueError
      else if \<not> (1 \<le> d \<and> d \<le> days_in_month y m) then Inl ValueError
      else if \<not> (0 \<le> h \<and> h \<le> 23) then Inl ValueError
      else if \<not> (0 \<le> mi \<and> mi \<le> 59) then Inl ValueError
      else Inr \<lparr>dt_year = y, dt_month = m, dt_day = d, dt_hour = h, dt_minute = mi,
                dt_second = 0, dt_microsecond = 0\<rparr>)"

text \<open>
  \<open>timedelta(hours=tz)\<close> for a float: the whole seconds, and the fraction of a second
  rounded to microseconds. More than 999999999 days either way is an OverflowError.
\<close>

definition timedelta_hours :: "real \<Rightarrow> error + int" where
  "timedelta_hours h =
     (let seconds = h * 3600;
          whole = py_int seconds;
          secondsfrac = seconds - of_int whole;
          us = whole * 1000000 + py_round (secondsfrac * 1000000)
      in if 999999999 < \<bar>us div DAY_US\<bar> then Inl OverflowError else Inr us)"

text \<open>The position of a datetime on the time line, in microseconds.\<close>

definition datetime_us :: "datetime \<Rightarrow> int" where
  "datetime_us dt =
     ymd2ord (dt_year dt) (dt_month dt) (dt_day dt) * DAY_US +
     ((dt_hour dt * 3600 + dt_minute dt * 60 + dt_second dt) * 1000000 + dt_microsecond dt)"

text \<open>
  \<open>dt - td\<close> is \<open>dt + (-td)\<close>: the negated duration is range checked, the sum is taken
  on the time line, and a day outside 1 .. MAXORDINAL is an OverflowError. The library
  also range checks the sum as a duration; that check raises the same error and only
  where the day is out of range too.
\<close>

definition datetime_sub :: "datetime \<Rightarrow> int \<Rightarrow> error + datetime" where
  "datetime_sub dt td =
     (if 999999999 < \<bar>(- td) div DAY_US\<bar> then Inl OverflowError
      else
        (let total = datetime_us dt + (- td);
             days = total div DAY_US;
             us_of_day = total mod DAY_US;
             seconds = us_of_day div 1000000;
             hour = seconds div 3600;
             rem = seconds mod 3600
         in if 0 < days \<and> days \<le> MAXORDINAL then
              (case ord2ymd days of
                 (y, m, d) \<Rightarrow>
                   Inr \<lparr>dt_year = y, dt_month = m, dt_day = d, dt_hour = hour,
                        dt_minute = rem div 60, dt_second = rem mod 60,
                        dt_microsecond = us_of_day mod 1000000\<rparr>)
            else Inl OverflowError))"

section \<open>The ephemeris provider\<close>

text \<open>
  The Swiss Ephemeris library is external. The program reads three things from it:
  \<open>swe.julday(y, m, d, h)\<close>, \<open>swe.calc_ut(jd, pid)[0][0]\<close> and
  \<open>swe.houses(jd, lat, lon)[0][0]\<close>. They are parameters of the model. The
  body numbers are the library's constants.
\<close>

record ephemeris =
  swe_julday :: "int \<Rightarrow> int \<Rightarrow> int \<Rightarrow> real \<Rightarrow> real"
  swe_calc_ut :: "real \<Rightarrow> int \<Rightarrow> real"
  swe_houses :: "real \<Rightarrow> real \<Rightarrow> real \<Rightarrow> real"

definition PLANETS :: "(string \<times> int) list" where
  "PLANETS =
     [(''Sun'', 0), (''Moon'', 1), (''Mars'', 4), (''Mercury'', 2),
      (''Jupiter'', 5), (''Venus'', 3), (''Saturn'', 6)]"

definition ZODIAC :: "string list" where
  "ZODIAC =
     [''Aries'', ''Taurus'', ''Gemini'', ''Cancer'', ''Leo'', ''Virgo'', ''Libra'',
      ''Scorpio'', ''Sagittarius'', ''Capricorn'', ''Aquarius'', ''Pisces'']"

section \<open>AstroCalc\<close>

text \<open>
  The birth dict: a key that may be absent is an option. The object after
  \<open>__init__\<close>: the birth dict, the Julian Day and the location.
\<close>

record birth =
  birth_date :: "string option"
  birth_time :: "string option"
  birth_lat :: "real option"
  birth_lon :: "real option"
  birth_tz :: "real option"

record astro_calc =
  birth :: birth
  julian_day :: real
  lat :: real
  lon :: real

text \<open>
  The first lines of \<open>_compute_julian_day\<close>. Both strings are split and parsed into
  exactly three and two ints, and \<open>datetime(...)\<close> builds the local datetime. The
  offset is read in between, with 0.0 for an absent key; reading it cannot fail here, a
  present offset being a number.
\<close>

definition parse_fields :: "char \<Rightarrow> string \<Rightarrow> error + int list" where
  "parse_fields c s = map_err int_of_str (split_on c s)"

definition dt_local_of :: "birth \<Rightarrow> error + datetime" where
  "dt_local_of b =
     (case birth_date b of
        None \<Rightarrow> Inl KeyError
      | Some ds \<Rightarrow>
     (case parse_fields CHR ''-'' ds of
        Inl e \<Rightarrow> Inl e
      | Inr dfs \<Rightarrow>
     (case dfs of
        [year, month, day] \<Rightarrow>
          (case birth_time b of
             None \<Rightarrow> Inl KeyError
           | Some ts \<Rightarrow>
          (case parse_fields CHR '':'' ts of
             Inl e \<Rightarrow> Inl e
           | Inr tfs \<Rightarrow>
          (case tfs of
             [hour, minute] \<Rightarrow> mk_datetime year month day hour minute
           | _ \<Rightarrow> Inl ValueError)))
      | _ \<Rightarrow> Inl ValueError)))"

definition tz_of :: "birth \<Rightarrow> real" where
  "tz_of b = (case birth_tz b of None \<Rightarrow> 0 | Some t \<Rightarrow> t)"

text \<open>The local variable \<open>dt_ut\<close>: the local datetime minus the offset as a duration.\<close>

definition dt_ut_of :: "birth \<Rightarrow> error + datetime" where
  "dt_ut_of b =
     (case dt_local_of b of
        Inl e \<Rightarrow> Inl e
      | Inr dt_local \<Rightarrow>
          (case timedelta_hours (tz_of b) of
             Inl e \<Rightarrow> Inl e
           | Inr td \<Rightarrow> datetime_sub dt_local td))"

text \<open>\<open>_compute_julian_day\<close> as \<open>__init__\<close> runs it: the object, or the exception.\<close>

definition compute_julian_day :: "ephemeris \<Rightarrow> birth \<Rightarrow> error + astro_calc" where
  "compute_julian_day p b =
     (case dt_ut_of b of
        Inl e \<Rightarrow> Inl e
      | Inr dt_ut \<Rightarrow>
          (let jd = swe_julday p (dt_year dt_ut) (dt_month dt_ut) (dt_day dt_ut)
                      (of_int (dt_hour dt_ut) + of_int (dt_minute dt_ut) / 60)
           in case birth_lat b of
                None \<Rightarrow> Inl KeyError
              | Some la \<Rightarrow>
                  (case birth_lon b of
                     None \<Rightarrow> Inl KeyError
                   | Some lo \<Rightarrow> Inr \<lparr>birth = b, julian_day = jd, lat = la, lon = lo\<rparr>)))"

definition AstroCalc :: "ephemeris \<Rightarrow> birth \<Rightarrow> error + astro_calc" where
  "AstroCalc p b = compute_julian_day p b"


definition planet_longitudes :: "ephemeris \<Rightarrow> astro_calc \<Rightarrow> (string \<times> real) list" where
  "planet_longitudes p ac =
     map (\<lambda>(name, pid). (name, py_mod (swe_calc_ut p (julian_day ac) pid) 360)) PLANETS"

definition ascendant :: "ephemeris \<Rightarrow> astro_calc \<Rightarrow> real" where
  "ascendant p ac = py_mod (swe_houses p (julian_day ac) (lat ac) (lon ac)) 360"

definition moon_sign :: "ephemeris \<Rightarrow> astro_calc \<Rightarrow> error + (string \<times> real)" where
  "moon_sign p ac =
     (case dict_get (planet_longitudes p ac) ''Moon'' of
        Inl e \<Rightarrow> Inl e
      | Inr moon_lon \<Rightarrow>
          (let sign_index = py_int (py_floordiv moon_lon 30) mod 12
           in case list_get ZODIAC sign_index of
                Inl e \<Rightarrow> Inl e
              | Inr sign \<Rightarrow> Inr (sign, moon_lon)))"

definition house_of_planet :: "ephemeris \<Rightarrow> astro_calc \<Rightarrow> real \<Rightarrow> int" where
  "house_of_planet p ac planet_long =
     (let asc = ascendant p ac;
          diff = py_mod (planet_long - asc) 360;
          house = py_int (py_floordiv diff 30) + 1
      in house)"

definition compute_all :: "ephemeris \<Rightarrow> astro_calc \<Rightarrow> error + (string \<times> pyval) list" where
  "compute_all p ac =
     (let longs = planet_longitudes p ac;
          asc = ascendant p ac;
          houses = map (\<lambda>(name, l). (name, house_of_planet p ac l)) longs
      in case moon_sign p ac of
           Inl e \<Rightarrow> Inl e
         | Inr (sign, moon_lon) \<Rightarrow>
             Inr [(''julian_day'', PFloat (julian_day ac)),
                  (''planetary_longitudes'', PDict (map (\<lambda>(name, l). (name, PFloat l)) longs)),
                  (''ascendant'', PFloat asc),
                  (''houses'', PDict (map (\<lambda>(name, h). (name, PInt h)) houses)),
                  (''moon_sign'', PStr sign),
                  (''moon_longitude'', PFloat moon_lon)])"

section \<open>ManglikRule\<close>

definition TRIGGER_HOUSES :: "int set" where
  "TRIGGER_HOUSES = {1, 2, 4, 7, 8, 12}"

definition ManglikRule_check :: "ephemeris \<Rightarrow> astro_calc \<Rightarrow> error + (string \<times> pyval) list" where
  "ManglikRule_check p ac =
     (case dict_get (planet_longitudes p ac) ''Mars'' of
        Inl e \<Rightarrow> Inl e
      | Inr mars_lon \<Rightarrow>
          (let mars_house = house_of_planet p ac mars_lon;
               is_manglik = (mars_house \<in> TRIGGER_HOUSES);
               conclusion = (if is_manglik then ''Manglik'' else ''Not Manglik'');
               explanation =
                 ''Mars longitude = '' @ fmt3 mars_lon @ deg_sign @ '' => house '' @
                 str_int mars_house @ ''. Manglik houses: '' @
                 repr_int_list (sorted_list_of_set TRIGGER_HOUSES) @ ''.''
           in Inr [(''conclusion'', PStr conclusion),
                   (''explanation'', PStr explanation),
                   (''trigger'', PBool is_manglik),
                   (''mars_longitude'', PFloat mars_lon),
                   (''mars_house'', PInt mars_house)]))"

section \<open>MoonSignRule\<close>

definition MoonSignRule_get :: "ephemeris \<Rightarrow> astro_calc \<Rightarrow> error + (string \<times> pyval) list" where
  "MoonSignRule_get p ac =
     (case moon_sign p ac of
        Inl e \<Rightarrow> Inl e
      | Inr (sign, moon_lon) \<Rightarrow>
          (let explanation =
                 ''Moon longitude = '' @ fmt3 moon_lon @ deg_sign @ '' => Moon in '' @ sign @ ''.''
           in Inr [(''moon_sign'', PStr sign),
                   (''moon_longitude'', PFloat moon_lon),
                   (''explanation'', PStr explanation)]))"

section \<open>VimshottariDasha\<close>

definition SEQUENCE :: "string list" where
  "SEQUENCE =
     [''Ketu'', ''Venus'', ''Sun'', ''Moon'', ''Mars'', ''Rahu'', ''Jupiter'', ''Saturn'',
      ''Mercury'']"

definition LENGTHS :: "(string \<times> int) list" where
  "LENGTHS =
     [(''Ketu'', 7), (''Venus'', 20), (''Sun'', 6), (''Moon'', 10), (''Mars'', 7),
      (''Rahu'', 18), (''Jupiter'', 16), (''Saturn'', 19), (''Mercury'', 17)]"

text \<open>
  The local variables of \<open>current_dasha\<close>, computed from the Moon's longitude. The
  rotation amount is never negative, so the two slices are \<open>drop\<close> and \<open>take\<close>.
\<close>

record dasha_locals =
  nak_index :: int
  deg_into_nak :: real
  proportion :: real
  seq :: "string list"
  first_lord :: string
  remaining_years_first :: real

definition nak_deg :: real where
  "nak_deg = 360 / 27"

definition dasha_of_moon :: "real \<Rightarrow> error + dasha_locals" where
  "dasha_of_moon moon_lon =
     (let ni = py_int (py_floordiv moon_lon nak_deg);
          din = moon_lon - of_int ni * nak_deg;
          pr = din / nak_deg;
          rot = ni mod int (length SEQUENCE);
          sq = drop (nat rot) SEQUENCE @ take (nat rot) SEQUENCE
      in case list_get sq 0 of
           Inl e \<Rightarrow> Inl e
         | Inr fl \<Rightarrow>
             (case dict_get LENGTHS fl of
                Inl e \<Rightarrow> Inl e
              | Inr len \<Rightarrow>
                  Inr \<lparr>nak_index = ni, deg_into_nak = din, proportion = pr, seq = sq,
                       first_lord = fl, remaining_years_first = of_int len * (1 - pr)\<rparr>))"

definition dasha_explanation :: "real \<Rightarrow> dasha_locals \<Rightarrow> string" where
  "dasha_explanation moon_lon d =
     ''Moon longitude '' @ fmt3 moon_lon @ deg_sign @ '', nakshatra index '' @
     str_int (nak_index d) @ '', degree into nakshatra '' @ fmt3 (deg_into_nak d) @
     deg_sign @ ''. '' @
     ''Approx current Mahadasha lord (simplified) = '' @ first_lord d @
     '', remaining approx = '' @ fmt3 (remaining_years_first d) @ '' years.''"

definition current_dasha :: "ephemeris \<Rightarrow> astro_calc \<Rightarrow> error + (string \<times> pyval) list" where
  "current_dasha p ac =
     (case dict_get (planet_longitudes p ac) ''Moon'' of
        Inl e \<Rightarrow> Inl e
      | Inr moon_lon \<Rightarrow>
          (case dasha_of_moon moon_lon of
             Inl e \<Rightarrow> Inl e
           | Inr d \<Rightarrow>
               Inr [(''mahadasha'', PStr (first_lord d)),
                    (''explanation'', PStr (dasha_explanation moon_lon d)),
                    (''moon_longitude'', PFloat moon_lon)]))"

section \<open>Predicates and auxiliary functions of the statements\<close>

text \<open>A datetime whose fields are all in range.\<close>

definition valid_datetime :: "datetime \<Rightarrow> bool" where
  "valid_datetime dt =
     (1 \<le> dt_year dt \<and> dt_year dt \<le> 9999 \<and> 1 \<le> dt_month dt \<and> dt_month dt \<le> 12 \<and>
      1 \<le> dt_day dt \<and> dt_day dt \<le> days_in_month (dt_year dt) (dt_month dt) \<and>
      0 \<le> dt_hour dt \<and> dt_hour dt \<le> 23 \<and> 0 \<le> dt_minute dt \<and> dt_minute dt \<le> 59 \<and>
      0 \<le> dt_second dt \<and> dt_second dt \<le> 59 \<and>
      0 \<le> dt_microsecond dt \<and> dt_microsecond dt \<le> 999999)"



text \<open>
  The month and day that \<open>ord2ymd\<close> computes from the zero-based day of the year, on
  its own.
\<close>

definition month_day :: "bool \<Rightarrow> int \<Rightarrow> int \<times> int" where
  "month_day leapyear n =
     (let m = (n + 50) div 32;
          preceding = DAYS_BEFORE_MONTH ! nat m + (if 2 < m \<and> leapyear then 1 else 0)
      in if n < preceding then
           (let m' = m - 1;
                preceding' = preceding -
                  (DAYS_IN_MONTH ! nat m' + (if m' = 2 \<and> leapyear then 1 else 0))
            in (m', n - preceding' + 1))
         else (m, n - preceding + 1))"

section \<open>A stub provider and the sample birth\<close>

text \<open>
  A deterministic stand-in for the ephemeris: fixed longitudes by body number, a fixed
  ascendant, and a plain day count in place of the Julian Day. The birth dict is the one
  of the module's \<open>__main__\<close> block.
\<close>

definition stub_ephemeris :: "(int \<Rightarrow> real) \<Rightarrow> real \<Rightarrow> ephemeris" where
  "stub_ephemeris lons asc =
     \<lparr>swe_julday = (\<lambda>y m d h. of_int (ymd2ord y m d) + h / 24),
      swe_calc_ut = (\<lambda>jd pid. lons pid),
      swe_houses = (\<lambda>jd la lo. asc)\<rparr>"

definition sample_birth :: birth where
  "sample_birth =
     \<lparr>birth_date = Some ''2006-10-12'', birth_time = Some ''20:27'',
      birth_lat = Some (286139 / 10000), birth_lon = Some (772090 / 10000),
      birth_tz = Some (55 / 10)\<rparr>"

definition sample_calc :: astro_calc where
  "sample_calc =
     \<lparr>birth = sample_birth, julian_day = 732596 + (14 + 57 / 60) / 24,
      lat = 286139 / 10000, lon = 772090 / 10000\<rparr>"

section \<open>Properties\<close>

subsection \<open>Normalised longitudes and houses\<close>

lemma py_mod_360_range: "0 \<le> py_mod x 360 \<and> py_mod x 360 < 360"
proof -
  have "of_int \<lfloor>x / 360\<rfloor> \<le> x / 360" "x / 360 < of_int \<lfloor>x / 360\<rfloor> + 1"
    by linarith+
  then show ?thesis
    unfolding py_mod_def by (simp add: field_simps)
qed


lemma py_mod_360_id: "0 \<le> x \<Longrightarrow> x < 360 \<Longrightarrow> py_mod x 360 = x"
proof -
  assume "0 \<le> x" "x < 360"
  then have "\<lfloor>x / 360\<rfloor> = 0"
    by (simp add: floor_eq_iff)
  then show ?thesis
    unfolding py_mod_def by simp
qed

lemma py_int_floordiv_nonneg: "0 \<le> x \<Longrightarrow> 0 < y \<Longrightarrow> py_int (py_floordiv x y) = \<lfloor>x / y\<rfloor>"
  unfolding py_int_def py_floordiv_def by simp

lemma floor_div_30_range:
  assumes "0 \<le> (d::real)" "d < 360"
  shows "0 \<le> \<lfloor>d / 30\<rfloor> \<and> \<lfloor>d / 30\<rfloor> \<le> 11"
proof -
  have "0 \<le> d / 30" "d / 30 < 12"
    using assms by simp_all
  then show ?thesis
    by (simp add: floor_less_iff le_floor_iff flip: less_Suc_eq_le)
qed






lemma moon_lookup:
  "dict_get (planet_longitudes p ac) ''Moon'' = Inr (py_mod (swe_calc_ut p (julian_day ac) 1) 360)"
  by (simp add: dict_get_def planet_longitudes_def PLANETS_def)

lemma mars_lookup:
  "dict_get (planet_longitudes p ac) ''Mars'' = Inr (py_mod (swe_calc_ut p (julian_day ac) 4) 360)"
  by (simp add: dict_get_def planet_longitudes_def PLANETS_def)




subsection \<open>Moon sign\<close>

lemma ZODIAC_props: "length ZODIAC = 12" "distinct ZODIAC"
  by (simp_all add: ZODIAC_def)

lemma moon_sign_value:
  "moon_sign p ac =
     Inr (ZODIAC ! nat \<lfloor>py_mod (swe_calc_ut p (julian_day ac) 1) 360 / 30\<rfloor>,
          py_mod (swe_calc_ut p (julian_day ac) 1) 360)"
proof -
  define m where "m = py_mod (swe_calc_ut p (julian_day ac) 1) 360"
  have r: "0 \<le> m" "m < 360"
    using py_mod_360_range [of "swe_calc_ut p (julian_day ac) 1"] by (simp_all add: m_def)
  then have k: "0 \<le> \<lfloor>m / 30\<rfloor>" "\<lfloor>m / 30\<rfloor> \<le> 11"
    using floor_div_30_range [of m] by simp_all
  have "py_int (py_floordiv m 30) mod 12 = \<lfloor>m / 30\<rfloor>"
    using r k by (simp add: py_int_floordiv_nonneg)
  then show ?thesis
    using k by (simp add: moon_sign_def moon_lookup list_get_def ZODIAC_props flip: m_def)
qed

text \<open>
  C4. For a Moon longitude \<open>m\<close> in [0,360) the sign is the entry of the zodiac list at
  index \<open>floor (m / 30) mod 12\<close>; the k-th sign is returned exactly on the band
  [30 k, 30 k + 30), so the twelve bands partition [0,360) in zodiac order, Aries
  first, then Taurus.
\<close>

theorem moon_sign_bands:
  assumes "swe_calc_ut p (julian_day ac) 1 = m" "0 \<le> m" "m < 360"
  shows "moon_sign p ac = Inr (ZODIAC ! nat (\<lfloor>m / 30\<rfloor> mod 12), m) \<and>
         (\<forall>k<12. moon_sign p ac = Inr (ZODIAC ! k, m) \<longleftrightarrow> 30 * real k \<le> m \<and> m < 30 * real k + 30) \<and>
         length ZODIAC = 12 \<and> distinct ZODIAC \<and>
         ZODIAC ! 0 = ''Aries'' \<and> ZODIAC ! 1 = ''Taurus''"
proof -
  have k: "0 \<le> \<lfloor>m / 30\<rfloor>" "\<lfloor>m / 30\<rfloor> \<le> 11"
    using floor_div_30_range [of m] assms by simp_all
  have v: "moon_sign p ac = Inr (ZODIAC ! nat \<lfloor>m / 30\<rfloor>, m)"
    using assms by (simp add: moon_sign_value py_mod_360_id)
  have band: "moon_sign p ac = Inr (ZODIAC ! j, m) \<longleftrightarrow> 30 * real j \<le> m \<and> m < 30 * real j + 30"
    if "j < 12" for j
  proof -
    have "nat \<lfloor>m / 30\<rfloor> < 12"
      using floor_div_30_range [OF assms(2,3)] by linarith
    then have "nat \<lfloor>m / 30\<rfloor> < length ZODIAC" "j < length ZODIAC"
      using that by (simp_all only: ZODIAC_props)
    then have "ZODIAC ! nat \<lfloor>m / 30\<rfloor> = ZODIAC ! j \<longleftrightarrow> nat \<lfloor>m / 30\<rfloor> = j"
      by (rule nth_eq_iff_index_eq [OF ZODIAC_props(2)])
    also have "\<dots> \<longleftrightarrow> \<lfloor>m / 30\<rfloor> = int j"
      using k by linarith
    also have "\<dots> \<longleftrightarrow> 30 * real j \<le> m \<and> m < 30 * real j + 30"
      by (simp add: floor_eq_iff field_simps)
    finally show ?thesis
      by (simp add: v)
  qed
  have "ZODIAC ! 0 = ''Aries''" "ZODIAC ! 1 = ''Taurus''"
    by (simp_all add: ZODIAC_def)
  then show ?thesis
    using k v band by (simp add: ZODIAC_props)
qed

theorem moon_sign_bands_witness:
  "swe_calc_ut (stub_ephemeris (\<lambda>_. 65) 0) (julian_day sample_calc) 1 = 65 \<and>
   (0::real) \<le> 65 \<and> (65::real) < 360 \<and> (2::nat) < 12 \<and>
   30 * real 2 \<le> 65 \<and> (65::real) < 30 * real 2 + 30 \<and>
   moon_sign (stub_ephemeris (\<lambda>_. 65) 0) sample_calc = Inr (''Gemini'', 65)"
  using moon_sign_bands [of "stub_ephemeris (\<lambda>_. 65) 0" sample_calc 65]
  by (simp add: stub_ephemeris_def ZODIAC_def)

subsection \<open>Manglik rule\<close>

lemma ManglikRule_check_value:
  "\<exists>explanation.
     ManglikRule_check p ac =
       Inr [(''conclusion'',
               PStr (if house_of_planet p ac (py_mod (swe_calc_ut p (julian_day ac) 4) 360)
                        \<in> {1, 2, 4, 7, 8, 12}
                     then ''Manglik'' else ''Not Manglik'')),
            (''explanation'', PStr explanation),
            (''trigger'',
               PBool (house_of_planet p ac (py_mod (swe_calc_ut p (julian_day ac) 4) 360)
                        \<in> {1, 2, 4, 7, 8, 12})),
            (''mars_longitude'', PFloat (py_mod (swe_calc_ut p (julian_day ac) 4) 360)),
            (''mars_house'',
               PInt (house_of_planet p ac (py_mod (swe_calc_ut p (julian_day ac) 4) 360)))]"
  by (simp add: ManglikRule_check_def mars_lookup TRIGGER_HOUSES_def Let_def)

text \<open>
  C3. \<open>ManglikRule.check\<close> always returns; with \<open>h\<close> the house of Mars, the conclusion
  is Manglik exactly when \<open>h\<close> is one of 1, 2, 4, 7, 8, 12 and Not Manglik otherwise, and
  the trigger flag is that same truth value. House 8 gives Manglik, house 9 Not Manglik.
\<close>

theorem ManglikRule_check_iff:
  assumes "h = house_of_planet p ac (py_mod (swe_calc_ut p (julian_day ac) 4) 360)"
  shows "\<exists>r. ManglikRule_check p ac = Inr r \<and>
           map_of r ''mars_house'' = Some (PInt h) \<and>
           (map_of r ''conclusion'' = Some (PStr ''Manglik'') \<longleftrightarrow> h \<in> {1, 2, 4, 7, 8, 12}) \<and>
           (map_of r ''conclusion'' = Some (PStr ''Not Manglik'') \<longleftrightarrow> h \<notin> {1, 2, 4, 7, 8, 12}) \<and>
           map_of r ''trigger'' = Some (PBool (h \<in> {1, 2, 4, 7, 8, 12})) \<and>
           (h = 8 \<longrightarrow> map_of r ''conclusion'' = Some (PStr ''Manglik'') \<and>
                      map_of r ''trigger'' = Some (PBool True)) \<and>
           (h = 9 \<longrightarrow> map_of r ''conclusion'' = Some (PStr ''Not Manglik'') \<and>
                      map_of r ''trigger'' = Some (PBool False))"
proof -
  obtain e where "ManglikRule_check p ac =
       Inr [(''conclusion'', PStr (if h \<in> {1, 2, 4, 7, 8, 12} then ''Manglik'' else ''Not Manglik'')),
            (''explanation'', PStr e),
            (''trigger'', PBool (h \<in> {1, 2, 4, 7, 8, 12})),
            (''mars_longitude'', PFloat (py_mod (swe_calc_ut p (julian_day ac) 4) 360)),
            (''mars_house'', PInt h)]"
    using ManglikRule_check_value [of p ac] assms by auto
  then show ?thesis
    by simp
qed

theorem ManglikRule_check_iff_witness:
  "(8::int) = house_of_planet (stub_ephemeris (\<lambda>_. 215) 0) sample_calc
       (py_mod (swe_calc_ut (stub_ephemeris (\<lambda>_. 215) 0) (julian_day sample_calc) 4) 360) \<and>
   (\<exists>r. ManglikRule_check (stub_ephemeris (\<lambda>_. 215) 0) sample_calc = Inr r \<and>
        map_of r ''conclusion'' = Some (PStr ''Manglik'') \<and>
        map_of r ''trigger'' = Some (PBool True)) \<and>
   (9::int) = house_of_planet (stub_ephemeris (\<lambda>_. 245) 0) sample_calc
       (py_mod (swe_calc_ut (stub_ephemeris (\<lambda>_. 245) 0) (julian_day sample_calc) 4) 360) \<and>
   (\<exists>r. ManglikRule_check (stub_ephemeris (\<lambda>_. 245) 0) sample_calc = Inr r \<and>
        map_of r ''conclusion'' = Some (PStr ''Not Manglik'') \<and>
        map_of r ''trigger'' = Some (PBool False))"
proof -
  have h8: "(8::int) = house_of_planet (stub_ephemeris (\<lambda>_. 215) 0) sample_calc
       (py_mod (swe_calc_ut (stub_ephemeris (\<lambda>_. 215) 0) (julian_day sample_calc) 4) 360)"
    by (simp add: house_of_planet_def ascendant_def stub_ephemeris_def py_mod_def py_int_def
        py_floordiv_def)
  have h9: "(9::int) = house_of_planet (stub_ephemeris (\<lambda>_. 245) 0) sample_calc
       (py_mod (swe_calc_ut (stub_ephemeris (\<lambda>_. 245) 0) (julian_day sample_calc) 4) 360)"
    by (simp add: house_of_planet_def ascendant_def stub_ephemeris_def py_mod_def py_int_def
        py_floordiv_def)
  show ?thesis
    using h8 h9 ManglikRule_check_iff [OF h8] ManglikRule_check_iff [OF h9]
    by (simp only: simp_thms) blast
qed

subsection \<open>Dasha rule\<close>



lemma SEQUENCE_length: "length SEQUENCE = 9"
  by (simp add: SEQUENCE_def)

lemma rotated_SEQUENCE:
  assumes "r < 9"
  shows "drop r SEQUENCE @ take r SEQUENCE = rotate r SEQUENCE"
    and "list_get (drop r SEQUENCE @ take r SEQUENCE) 0 = Inr (SEQUENCE ! r)"
    and "rotate r SEQUENCE ! 0 = SEQUENCE ! r"
proof -
  show eq: "drop r SEQUENCE @ take r SEQUENCE = rotate r SEQUENCE"
    using assms by (simp add: rotate_drop_take SEQUENCE_length)
  have "(drop r SEQUENCE @ take r SEQUENCE) ! 0 = SEQUENCE ! r"
    using assms by (simp add: nth_append SEQUENCE_length)
  then show "list_get (drop r SEQUENCE @ take r SEQUENCE) 0 = Inr (SEQUENCE ! r)"
    using assms by (simp add: list_get_def SEQUENCE_length)
  show "rotate r SEQUENCE ! 0 = SEQUENCE ! r"
    using assms by (simp add: nth_append SEQUENCE_length flip: eq)
qed

lemma LENGTHS_of_SEQUENCE:
  assumes "r < 9"
  shows "\<exists>len. map_of LENGTHS (SEQUENCE ! r) = Some len \<and> 0 < len"
proof -
  have "r \<in> {0, 1, 2, 3, 4, 5, 6, 7, 8}"
    using assms by auto
  then show ?thesis
    by (auto simp: LENGTHS_def SEQUENCE_def)
qed

lemma dasha_of_moon_value:
  assumes "0 \<le> m" "m < 360"
  shows "\<exists>len. map_of LENGTHS (SEQUENCE ! nat (\<lfloor>m / nak_deg\<rfloor> mod 9)) = Some len \<and>
     dasha_of_moon m =
       Inr \<lparr>nak_index = \<lfloor>m / nak_deg\<rfloor>,
            deg_into_nak = m - of_int \<lfloor>m / nak_deg\<rfloor> * nak_deg,
            proportion = (m - of_int \<lfloor>m / nak_deg\<rfloor> * nak_deg) / nak_deg,
            seq = rotate (nat (\<lfloor>m / nak_deg\<rfloor> mod 9)) SEQUENCE,
            first_lord = SEQUENCE ! nat (\<lfloor>m / nak_deg\<rfloor> mod 9),
            remaining_years_first =
              of_int len * (1 - (m - of_int \<lfloor>m / nak_deg\<rfloor> * nak_deg) / nak_deg)\<rparr>"
proof -
  define r where "r = nat (\<lfloor>m / nak_deg\<rfloor> mod 9)"
  have r: "r < 9"
    unfolding r_def by simp
  have ni: "py_int (py_floordiv m nak_deg) = \<lfloor>m / nak_deg\<rfloor>"
    using assms by (simp add: py_int_floordiv_nonneg nak_deg_def)
  obtain len where len: "map_of LENGTHS (SEQUENCE ! r) = Some len"
    using LENGTHS_of_SEQUENCE [OF r] by blast
  have "dasha_of_moon m =
       Inr \<lparr>nak_index = \<lfloor>m / nak_deg\<rfloor>,
            deg_into_nak = m - of_int \<lfloor>m / nak_deg\<rfloor> * nak_deg,
            proportion = (m - of_int \<lfloor>m / nak_deg\<rfloor> * nak_deg) / nak_deg,
            seq = rotate r SEQUENCE,
            first_lord = SEQUENCE ! r,
            remaining_years_first =
              of_int len * (1 - (m - of_int \<lfloor>m / nak_deg\<rfloor> * nak_deg) / nak_deg)\<rparr>"
    unfolding dasha_of_moon_def Let_def ni SEQUENCE_length
    using rotated_SEQUENCE [OF r] len
    by (simp add: dict_get_def flip: r_def)
  then show ?thesis
    using len unfolding r_def by blast
qed



subsection \<open>The dasha result and its explanation\<close>

lemma py_round_near: "\<bar>x - of_int (py_round x)\<bar> \<le> 1 / 2"
proof -
  have "of_int \<lfloor>x\<rfloor> \<le> x" "x < of_int \<lfloor>x\<rfloor> + 1"
    by linarith+
  then show ?thesis
    by (auto simp: py_round_def Let_def)
qed

lemma py_round_nonneg: "0 \<le> x \<Longrightarrow> 0 \<le> py_round x"
  by (simp add: py_round_def Let_def)

lemma fmt3_three_decimals:
  assumes "0 \<le> x"
  shows "\<exists>n. fmt3 x = str_nat (n div 1000) @ ''.'' @
                 [digit_char (n div 100), digit_char (n div 10), digit_char n] \<and>
             \<bar>x * 1000 - real n\<bar> \<le> 1 / 2"
proof -
  define n where "n = nat (py_round (x * 1000))"
  have "0 \<le> py_round (x * 1000)"
    using assms by (simp add: py_round_nonneg)
  then have "real n = of_int (py_round (x * 1000))"
    by (simp add: n_def)
  then have near: "\<bar>x * 1000 - real n\<bar> \<le> 1 / 2"
    using py_round_near [of "x * 1000"] by simp
  have "fmt3 x = str_nat (n div 1000) @ ''.'' @
                 [digit_char (n div 100), digit_char (n div 10), digit_char n]"
    using assms by (simp add: fmt3_def Let_def n_def)
  then show ?thesis
    using near by blast
qed

text \<open>
  C8, as the code has it. The dict that \<open>current_dasha\<close> returns has three entries: the
  lord under \<open>mahadasha\<close>, the explanation, and the Moon longitude. The explanation is the
  fixed text around, in this order, the Moon longitude to three decimals, the nakshatra
  index, the degrees into the nakshatra to three decimals, the lord, and the remaining
  years to three decimals. The remaining years appear nowhere else in the result.
\<close>

theorem current_dasha_result:
  assumes "m = py_mod (swe_calc_ut p (julian_day ac) 1) 360"
  shows "\<exists>d. dasha_of_moon m = Inr d \<and>
           current_dasha p ac =
             Inr [(''mahadasha'', PStr (first_lord d)),
                  (''explanation'',
                     PStr (''Moon longitude '' @ fmt3 m @ deg_sign @ '', nakshatra index '' @
                           str_int (nak_index d) @ '', degree into nakshatra '' @
                           fmt3 (deg_into_nak d) @ deg_sign @ ''. '' @
                           ''Approx current Mahadasha lord (simplified) = '' @ first_lord d @
                           '', remaining approx = '' @ fmt3 (remaining_years_first d) @
                           '' years.'')),
                  (''moon_longitude'', PFloat m)]"
proof -
  have "0 \<le> m" "m < 360"
    using py_mod_360_range [of "swe_calc_ut p (julian_day ac) 1"] assms by simp_all
  then obtain d where d: "dasha_of_moon m = Inr d"
    using dasha_of_moon_value [of m] by blast
  then show ?thesis
    using assms by (simp add: current_dasha_def moon_lookup dasha_explanation_def)
qed

theorem current_dasha_result_witness:
  "(0::real) = py_mod (swe_calc_ut (stub_ephemeris (\<lambda>_. 0) 0) (julian_day sample_calc) 1) 360 \<and>
   current_dasha (stub_ephemeris (\<lambda>_. 0) 0) sample_calc =
     Inr [(''mahadasha'', PStr ''Ketu''),
          (''explanation'',
             PStr (''Moon longitude 0.000'' @ deg_sign @
                   '', nakshatra index 0, degree into nakshatra 0.000'' @ deg_sign @
                   ''. Approx current Mahadasha lord (simplified) = Ketu, '' @
                   ''remaining approx = 7.000 years.'')),
          (''moon_longitude'', PFloat 0)]"
proof -
  have m: "(0::real) = py_mod (swe_calc_ut (stub_ephemeris (\<lambda>_. 0) 0) (julian_day sample_calc) 1) 360"
    by (simp add: stub_ephemeris_def py_mod_def)
  have z: "dasha_of_moon 0 =
           Inr \<lparr>nak_index = 0, deg_into_nak = 0, proportion = 0, seq = SEQUENCE,
                first_lord = ''Ketu'', remaining_years_first = 7\<rparr>"
    by (simp add: dasha_of_moon_def py_int_def py_floordiv_def nak_deg_def SEQUENCE_def
        list_get_def dict_get_def LENGTHS_def)
  have f: "fmt3 0 = ''0.000''" "fmt3 7 = ''7.000''" "str_int 0 = ''0''"
    by (simp_all add: fmt3_def py_round_def str_nat.simps digit_char_def str_int_def)
  show ?thesis
    using current_dasha_result [OF m] m by (simp add: z f)
qed

theorem current_dasha_no_remaining_years_entry:
  "\<exists>r d. current_dasha (stub_ephemeris (\<lambda>_. 0) 0) sample_calc = Inr r \<and>
         dasha_of_moon 0 = Inr d \<and> remaining_years_first d = 7 \<and>
         map fst r = [''mahadasha'', ''explanation'', ''moon_longitude''] \<and>
         PFloat (remaining_years_first d) \<notin> snd ` set r"
proof -
  have m: "dict_get (planet_longitudes (stub_ephemeris (\<lambda>_. 0) 0) sample_calc) ''Moon'' = Inr 0"
    by (simp add: moon_lookup stub_ephemeris_def py_mod_def)
  have z: "dasha_of_moon 0 =
           Inr \<lparr>nak_index = 0, deg_into_nak = 0, proportion = 0, seq = SEQUENCE,
                first_lord = ''Ketu'', remaining_years_first = 7\<rparr>"
    by (simp add: dasha_of_moon_def py_int_def py_floordiv_def nak_deg_def SEQUENCE_def
        list_get_def dict_get_def LENGTHS_def)
  show ?thesis
    by (simp add: current_dasha_def m z)
qed

subsection \<open>Ordinals and calendar dates\<close>

lemma div_decomp: "0 \<le> r \<Longrightarrow> r < k \<Longrightarrow> (k * q + r) div k = (q::int)"
  by simp

lemma mod_decomp: "0 \<le> r \<Longrightarrow> r < k \<Longrightarrow> (k * q + r) mod k = (r::int)"
  by simp

lemma days_before_year_decomp:
  assumes "0 \<le> b" "b \<le> 3" "0 \<le> c" "c \<le> 24" "0 \<le> e" "e \<le> 3"
  shows "days_before_year (400 * a + 100 * b + 4 * c + e + 1) =
           146097 * a + 36524 * b + 1461 * c + 365 * e"
proof -
  have "(4 * (100 * a + 25 * b + c) + e) div 4 = 100 * a + 25 * b + c"
    using assms by (intro div_decomp) simp_all
  then have d4: "(400 * a + 100 * b + 4 * c + e) div 4 = 100 * a + 25 * b + c"
    by (simp add: algebra_simps)
  have "(100 * (4 * a + b) + (4 * c + e)) div 100 = 4 * a + b"
    using assms by (intro div_decomp) simp_all
  then have d100: "(400 * a + 100 * b + 4 * c + e) div 100 = 4 * a + b"
    by (simp add: algebra_simps)
  have "(400 * a + (100 * b + 4 * c + e)) div 400 = a"
    using assms by (intro div_decomp) simp_all
  then have d400: "(400 * a + 100 * b + 4 * c + e) div 400 = a"
    by (simp add: algebra_simps)
  show ?thesis
    by (simp add: days_before_year_def d4 d100 d400)
qed

lemma is_leap_decomp:
  assumes "0 \<le> b" "b \<le> 3" "0 \<le> c" "c \<le> 24" "0 \<le> e" "e \<le> 3"
  shows "is_leap (400 * a + 100 * b + 4 * c + e + 1) \<longleftrightarrow> e = 3 \<and> (c \<noteq> 24 \<or> b = 3)"
proof (cases "e = 3")
  case False
  have "(4 * (100 * a + 25 * b + c) + (e + 1)) mod 4 = e + 1"
    using assms False by (intro mod_decomp) simp_all
  then have "(400 * a + 100 * b + 4 * c + e + 1) mod 4 = e + 1"
    by (simp add: algebra_simps)
  then show ?thesis
    using assms False by (simp add: is_leap_def)
next
  case e: True
  have y: "400 * a + 100 * b + 4 * c + e + 1 = 4 * (100 * a + 25 * b + c + 1)"
    using e by simp
  have m4: "(400 * a + 100 * b + 4 * c + e + 1) mod 4 = 0"
    unfolding y by simp
  show ?thesis
  proof (cases "c = 24")
    case False
    have "(100 * (4 * a + b) + (4 * c + 4)) mod 100 = 4 * c + 4"
      using assms False by (intro mod_decomp) simp_all
    then have "(400 * a + 100 * b + 4 * c + e + 1) mod 100 = 4 * c + 4"
      using e by (simp add: algebra_simps)
    then show ?thesis
      using assms False e m4 by (simp add: is_leap_def)
  next
    case c: True
    have y100: "400 * a + 100 * b + 4 * c + e + 1 = 100 * (4 * a + b + 1)"
      using e c by simp
    have m100: "(400 * a + 100 * b + 4 * c + e + 1) mod 100 = 0"
      unfolding y100 by simp
    show ?thesis
    proof (cases "b = 3")
      case False
      have "(400 * a + (100 * b + 100)) mod 400 = 100 * b + 100"
        using assms False by (intro mod_decomp) simp_all
      then have "(400 * a + 100 * b + 4 * c + e + 1) mod 400 = 100 * b + 100"
        using e c by (simp add: algebra_simps)
      then show ?thesis
        using assms False e c m4 m100 by (simp add: is_leap_def)
    next
      case True
      have y400: "400 * a + 100 * b + 4 * c + e + 1 = 400 * (a + 1)"
        using e c True by simp
      have "(400 * a + 100 * b + 4 * c + e + 1) mod 400 = 0"
        unfolding y400 by simp
      then show ?thesis
        using True e c m4 m100 by (simp add: is_leap_def)
    qed
  qed
qed

lemma month_day_spec:
  assumes "0 \<le> n" "n < 365" "month_day leapyear n = (m, d)"
  shows "1 \<le> m \<and> m \<le> 12 \<and> 1 \<le> d \<and>
         d \<le> (if m = 2 \<and> leapyear then 29 else DAYS_IN_MONTH ! nat m) \<and>
         DAYS_BEFORE_MONTH ! nat m + (if 2 < m \<and> leapyear then 1 else 0) + d = n + 1"
proof -
  define k where "k = (n + 50) div 32"
  have "32 * k \<le> n + 50" "n + 50 < 32 * k + 32"
    unfolding k_def by presburger+
  then have b: "32 * k \<le> n + 50" "n + 50 < 32 * k + 32" "1 \<le> k" "k \<le> 12"
    using assms(1,2) by linarith+
  have "k = 1 \<or> k = 2 \<or> k = 3 \<or> k = 4 \<or> k = 5 \<or> k = 6 \<or> k = 7 \<or> k = 8 \<or> k = 9 \<or>
        k = 10 \<or> k = 11 \<or> k = 12"
    using b(3,4) by presburger
  then show ?thesis
    using assms b(1,2)
    unfolding month_day_def Let_def k_def [symmetric] DAYS_BEFORE_MONTH_def DAYS_IN_MONTH_def
    by (elim disjE) (auto split: if_splits)
qed

lemma ord2ymd_correct:
  assumes "ord2ymd n = (y, m, d)"
  shows "1 \<le> m \<and> m \<le> 12 \<and> 1 \<le> d \<and> d \<le> days_in_month y m \<and> ymd2ord y m d = n"
proof -
  define a where "a = (n - 1) div 146097"
  define r1 where "r1 = (n - 1) mod 146097"
  define b where "b = r1 div 36524"
  define r2 where "r2 = r1 mod 36524"
  define c where "c = r2 div 1461"
  define r3 where "r3 = r2 mod 1461"
  define e where "e = r3 div 365"
  define r4 where "r4 = r3 mod 365"
  have n: "n = 146097 * a + r1 + 1" and r1: "0 \<le> r1" "r1 < 146097"
    by (simp_all add: a_def r1_def)
  have r1': "r1 = 36524 * b + r2" and r2: "0 \<le> r2" "r2 < 36524"
    by (simp_all add: b_def r2_def)
  have r2': "r2 = 1461 * c + r3" and r3: "0 \<le> r3" "r3 < 1461"
    by (simp_all add: c_def r3_def)
  have r3': "r3 = 365 * e + r4" and r4: "0 \<le> r4" "r4 < 365"
    by (simp_all add: e_def r4_def)
  have b: "0 \<le> b" "b \<le> 4"
    using r1 r1' r2 by linarith+
  have c: "0 \<le> c" "c \<le> 24"
    using r2 r2' r3 by linarith+
  have e: "0 \<le> e" "e \<le> 4"
    using r3 r3' r4 by linarith+
  have unf: "ord2ymd n =
      (if e = 4 \<or> b = 4 then (400 * a + 100 * b + 4 * c + e, 12, 31)
       else (case month_day (e = 3 \<and> (c \<noteq> 24 \<or> b = 3)) r4 of
               (m, d) \<Rightarrow> (400 * a + 100 * b + 4 * c + e + 1, m, d)))"
    unfolding ord2ymd_def month_day_def Let_def
    unfolding a_def [symmetric] r1_def [symmetric]
    unfolding b_def [symmetric] r2_def [symmetric]
    unfolding c_def [symmetric] r3_def [symmetric]
    unfolding e_def [symmetric] r4_def [symmetric]
    by (simp add: algebra_simps)
  show ?thesis
  proof (cases "e = 4 \<or> b = 4")
    case True
    then have ymd: "y = 400 * a + 100 * b + 4 * c + e" "m = 12" "d = 31"
      using assms unf by simp_all
    have "\<exists>b' c'. 0 \<le> b' \<and> b' \<le> 3 \<and> 0 \<le> c' \<and> c' \<le> 24 \<and> (c' \<noteq> 24 \<or> b' = 3) \<and>
            y = 400 * a + 100 * b' + 4 * c' + 3 + 1 \<and>
            n = 146097 * a + 36524 * b' + 1461 * c' + 365 * 3 + 366"
    proof (cases "b = 4")
      case True
      then have "r2 = 0" "c = 0" "r3 = 0" "e = 0" "r4 = 0"
        using r1 r1' r2 r2' r3 r3' r4 c e by linarith+
      then have "y = 400 * a + 100 * 3 + 4 * 24 + 3 + 1 \<and>
            n = 146097 * a + 36524 * 3 + 1461 * 24 + 365 * 3 + 366"
        using True ymd n r1' by simp
      then show ?thesis
        by (intro exI [of _ 3] exI [of _ 24]) simp
    next
      case False
      then have e4: "e = 4" and b3: "b \<le> 3"
        using True b by simp_all
      then have "r4 = 0" "c \<le> 23"
        using r2 r2' r3 r3' r4 by linarith+
      then have "0 \<le> b \<and> b \<le> 3 \<and> 0 \<le> c \<and> c \<le> 24 \<and> (c \<noteq> 24 \<or> b = 3) \<and>
            y = 400 * a + 100 * b + 4 * c + 3 + 1 \<and>
            n = 146097 * a + 36524 * b + 1461 * c + 365 * 3 + 366"
        using e4 b3 b c ymd n r1' r2' r3' by simp
      then show ?thesis
        by blast
    qed
    then obtain b' c' where bc: "0 \<le> b'" "b' \<le> 3" "0 \<le> c'" "c' \<le> 24" "c' \<noteq> 24 \<or> b' = 3"
      and y: "y = 400 * a + 100 * b' + 4 * c' + 3 + 1"
      and n': "n = 146097 * a + 36524 * b' + 1461 * c' + 365 * 3 + 366"
      by blast
    have leap: "is_leap y"
      unfolding y using bc is_leap_decomp [of b' c' 3 a] by simp
    have dby: "days_before_year y = 146097 * a + 36524 * b' + 1461 * c' + 365 * 3"
      unfolding y using bc days_before_year_decomp [of b' c' 3 a] by simp
    show ?thesis
      using leap dby n'
      by (simp add: ymd days_in_month_def ymd2ord_def days_before_month_def
          DAYS_IN_MONTH_def DAYS_BEFORE_MONTH_def)
  next
    case False
    then have be: "b \<le> 3" "e \<le> 3"
      using b e by simp_all
    obtain m' d' where md: "month_day (e = 3 \<and> (c \<noteq> 24 \<or> b = 3)) r4 = (m', d')"
      by (cases "month_day (e = 3 \<and> (c \<noteq> 24 \<or> b = 3)) r4")
    then have ymd: "y = 400 * a + 100 * b + 4 * c + e + 1" "m = m'" "d = d'"
      using assms unf False by simp_all
    have leap: "is_leap y \<longleftrightarrow> e = 3 \<and> (c \<noteq> 24 \<or> b = 3)"
      unfolding ymd using b c e be by (intro is_leap_decomp)
    have dby: "days_before_year y = 146097 * a + 36524 * b + 1461 * c + 365 * e"
      unfolding ymd using b c e be by (intro days_before_year_decomp)
    have n': "n = 146097 * a + 36524 * b + 1461 * c + 365 * e + r4 + 1"
      using n r1' r2' r3' by simp
    show ?thesis
      using month_day_spec [OF r4 md] leap dby n'
      by (simp add: ymd(2,3) days_in_month_def ymd2ord_def days_before_month_def)
  qed
qed

lemma year_decomp:
  "\<exists>a b c e. y = 400 * a + 100 * b + 4 * c + e + 1 \<and>
     0 \<le> b \<and> b \<le> 3 \<and> 0 \<le> c \<and> c \<le> 24 \<and> 0 \<le> e \<and> (e::int) \<le> 3"
proof -
  define a where "a = (y - 1) div 400"
  define r where "r = (y - 1) mod 400"
  define b where "b = r div 100"
  define r' where "r' = r mod 100"
  define c where "c = r' div 4"
  define e where "e = r' mod 4"
  have y: "y = 400 * a + r + 1" and r: "0 \<le> r" "r < 400"
    by (simp_all add: a_def r_def)
  have r1: "r = 100 * b + r'" and r': "0 \<le> r'" "r' < 100"
    by (simp_all add: b_def r'_def)
  have r2: "r' = 4 * c + e" and e: "0 \<le> e" "e < 4"
    by (simp_all add: c_def e_def)
  have "0 \<le> b" "b \<le> 3" "0 \<le> c" "c \<le> 24"
    using r r1 r' r2 e by linarith+
  moreover have "y = 400 * a + 100 * b + 4 * c + e + 1"
    using y r1 r2 by simp
  ultimately show ?thesis
    using e by (intro exI [of _ a] exI [of _ b] exI [of _ c] exI [of _ e]) simp
qed

lemma days_before_year_step:
  "days_before_year (y + 1) = days_before_year y + (if is_leap y then 366 else 365)"
proof -
  obtain a b c e where y: "y = 400 * a + 100 * b + 4 * c + e + 1"
    and r: "0 \<le> b" "b \<le> 3" "0 \<le> c" "c \<le> 24" "0 \<le> e" "e \<le> 3"
    using year_decomp [of y] by blast
  have dby: "days_before_year y = 146097 * a + 36524 * b + 1461 * c + 365 * e"
    unfolding y using r by (intro days_before_year_decomp)
  have leap: "is_leap y \<longleftrightarrow> e = 3 \<and> (c \<noteq> 24 \<or> b = 3)"
    unfolding y using r by (intro is_leap_decomp)
  consider "e \<le> 2" | "e = 3" "c \<le> 23" | "e = 3" "c = 24" "b \<le> 2" | "e = 3" "c = 24" "b = 3"
    using r by linarith
  then have "days_before_year (y + 1) =
      146097 * a + 36524 * b + 1461 * c + 365 * e + (if e = 3 \<and> (c \<noteq> 24 \<or> b = 3) then 366 else 365)"
  proof cases
    case 1
    have "y + 1 = 400 * a + 100 * b + 4 * c + (e + 1) + 1"
      using y by simp
    moreover have "days_before_year (400 * a + 100 * b + 4 * c + (e + 1) + 1) =
        146097 * a + 36524 * b + 1461 * c + 365 * (e + 1)"
      using r 1 by (intro days_before_year_decomp) simp_all
    ultimately show ?thesis
      using 1 by simp
  next
    case 2
    have "y + 1 = 400 * a + 100 * b + 4 * (c + 1) + 0 + 1"
      using y 2 by simp
    moreover have "days_before_year (400 * a + 100 * b + 4 * (c + 1) + 0 + 1) =
        146097 * a + 36524 * b + 1461 * (c + 1) + 365 * 0"
      using r 2 by (intro days_before_year_decomp) simp_all
    ultimately show ?thesis
      using 2 by simp
  next
    case 3
    have "y + 1 = 400 * a + 100 * (b + 1) + 4 * 0 + 0 + 1"
      using y 3 by simp
    moreover have "days_before_year (400 * a + 100 * (b + 1) + 4 * 0 + 0 + 1) =
        146097 * a + 36524 * (b + 1) + 1461 * 0 + 365 * 0"
      using r 3 by (intro days_before_year_decomp) simp_all
    ultimately show ?thesis
      using 3 by simp
  next
    case 4
    have "y + 1 = 400 * (a + 1) + 100 * 0 + 4 * 0 + 0 + 1"
      using y 4 by simp
    moreover have "days_before_year (400 * (a + 1) + 100 * 0 + 4 * 0 + 0 + 1) =
        146097 * (a + 1) + 36524 * 0 + 1461 * 0 + 365 * 0"
      by (intro days_before_year_decomp) simp_all
    ultimately show ?thesis
      using 4 by simp
  qed
  then show ?thesis
    using dby leap by simp
qed

lemma days_before_year_mono: "y \<le> y' \<Longrightarrow> days_before_year y \<le> days_before_year y'"
proof (induction y' rule: int_ge_induct)
  case base
  show ?case by simp
next
  case (step i)
  then show ?case
    using days_before_year_step [of i] by (simp split: if_splits)
qed

lemma month_cases:
  "1 \<le> m \<Longrightarrow> m \<le> 12 \<Longrightarrow>
     m = 1 \<or> m = 2 \<or> m = 3 \<or> m = 4 \<or> m = 5 \<or> m = 6 \<or> m = 7 \<or> m = 8 \<or> m = 9 \<or>
     m = 10 \<or> m = 11 \<or> m = (12::int)"
  by presburger

lemma day_of_year_range:
  assumes "1 \<le> m" "m \<le> 12" "1 \<le> d" "d \<le> days_in_month y m"
  shows "1 \<le> days_before_month y m + d \<and>
         days_before_month y m + d \<le> (if is_leap y then 366 else 365)"
  using month_cases [OF assms(1,2)] assms(3,4)
  unfolding days_before_month_def days_in_month_def DAYS_BEFORE_MONTH_def DAYS_IN_MONTH_def
  by (elim disjE) (auto split: if_splits)

lemma day_of_year_inj:
  assumes "1 \<le> m" "m \<le> 12" "1 \<le> d" "d \<le> days_in_month y m"
    and "1 \<le> m'" "m' \<le> 12" "1 \<le> d'" "d' \<le> days_in_month y m'"
    and "days_before_month y m + d = days_before_month y m' + d'"
  shows "m = m' \<and> d = d'"
  using month_cases [OF assms(1,2)] month_cases [OF assms(5,6)] assms(3,4,7,8,9)
  unfolding days_before_month_def days_in_month_def DAYS_BEFORE_MONTH_def DAYS_IN_MONTH_def
  by (elim disjE) (simp_all split: if_splits)

lemma ymd2ord_year_range:
  assumes "1 \<le> m" "m \<le> 12" "1 \<le> d" "d \<le> days_in_month y m"
  shows "days_before_year y < ymd2ord y m d \<and> ymd2ord y m d \<le> days_before_year (y + 1)"
  using day_of_year_range [OF assms] days_before_year_step [of y]
  by (simp add: ymd2ord_def split: if_splits)

lemma ymd2ord_inj:
  assumes "1 \<le> m" "m \<le> 12" "1 \<le> d" "d \<le> days_in_month y m"
    and "1 \<le> m'" "m' \<le> 12" "1 \<le> d'" "d' \<le> days_in_month y' m'"
    and eq: "ymd2ord y m d = ymd2ord y' m' d'"
  shows "y = y' \<and> m = m' \<and> d = d'"
proof -
  have a: "days_before_year y < ymd2ord y m d" "ymd2ord y m d \<le> days_before_year (y + 1)"
    using ymd2ord_year_range [OF assms(1-4)] by simp_all
  have b: "days_before_year y' < ymd2ord y' m' d'" "ymd2ord y' m' d' \<le> days_before_year (y' + 1)"
    using ymd2ord_year_range [OF assms(5-8)] by simp_all
  have "\<not> y < y'"
  proof
    assume "y < y'"
    then have "days_before_year (y + 1) \<le> days_before_year y'"
      by (intro days_before_year_mono) simp
    then show False
      using a b eq by linarith
  qed
  moreover have "\<not> y' < y"
  proof
    assume "y' < y"
    then have "days_before_year (y' + 1) \<le> days_before_year y"
      by (intro days_before_year_mono) simp
    then show False
      using a b eq by linarith
  qed
  ultimately have y: "y = y'"
    by simp
  then have "days_before_month y m + d = days_before_month y m' + d'"
    using eq by (simp add: ymd2ord_def)
  then show ?thesis
    using day_of_year_inj [of m d y m' d'] assms(1-8) y by simp
qed

lemma ord2ymd_ymd2ord:
  assumes "1 \<le> m" "m \<le> 12" "1 \<le> d" "d \<le> days_in_month y m"
  shows "ord2ymd (ymd2ord y m d) = (y, m, d)"
proof -
  obtain y' m' d' where r: "ord2ymd (ymd2ord y m d) = (y', m', d')"
    by (cases "ord2ymd (ymd2ord y m d)") auto
  then have "1 \<le> m' \<and> m' \<le> 12 \<and> 1 \<le> d' \<and> d' \<le> days_in_month y' m' \<and>
      ymd2ord y' m' d' = ymd2ord y m d"
    by (rule ord2ymd_correct)
  then have "y' = y \<and> m' = m \<and> d' = d"
    using ymd2ord_inj [of m' d' y' m d y] assms by simp
  then show ?thesis
    using r by simp
qed

lemma ymd2ord_bounds:
  assumes "1 \<le> y" "y \<le> 9999" "1 \<le> m" "m \<le> 12" "1 \<le> d" "d \<le> days_in_month y m"
  shows "1 \<le> ymd2ord y m d \<and> ymd2ord y m d \<le> MAXORDINAL"
proof -
  have "days_before_year 1 \<le> days_before_year y" "days_before_year (y + 1) \<le> days_before_year 10000"
    using assms(1,2) by (intro days_before_year_mono; simp)+
  moreover have "days_before_year 1 = 0" "days_before_year 10000 = 3652059"
    by (simp_all add: days_before_year_def)
  ultimately show ?thesis
    using ymd2ord_year_range [OF assms(3-6)] by (simp add: MAXORDINAL_def)
qed

lemma ord2ymd_year_bounds:
  assumes "1 \<le> n" "n \<le> MAXORDINAL" "ord2ymd n = (y, m, d)"
  shows "1 \<le> y \<and> y \<le> 9999"
proof -
  have v: "1 \<le> m" "m \<le> 12" "1 \<le> d" "d \<le> days_in_month y m" and n: "ymd2ord y m d = n"
    using ord2ymd_correct [OF assms(3)] by simp_all
  have rg: "days_before_year y < n" "n \<le> days_before_year (y + 1)"
    using ymd2ord_year_range [OF v] n by simp_all
  have c: "days_before_year 1 = 0" "days_before_year 10000 = 3652059"
    by (simp_all add: days_before_year_def)
  have "\<not> y \<le> 0"
  proof
    assume "y \<le> 0"
    then have "days_before_year (y + 1) \<le> days_before_year 1"
      by (intro days_before_year_mono) simp
    then show False
      using rg assms(1) c by linarith
  qed
  moreover have "\<not> 10000 \<le> y"
  proof
    assume "10000 \<le> y"
    then have "days_before_year 10000 \<le> days_before_year y"
      by (intro days_before_year_mono)
    then show False
      using rg assms(2) c by (simp add: MAXORDINAL_def)
  qed
  ultimately show ?thesis
    by simp
qed

subsection \<open>Subtracting a duration\<close>

lemma div_mod_ex:
  fixes x k :: int
  assumes "0 < k"
  obtains q r where "x div k = q" "x mod k = r" "x = k * q + r" "0 \<le> r" "r < k"
proof
  show "x div k = x div k" "x mod k = x mod k" "x = k * (x div k) + x mod k"
    by simp_all
  show "0 \<le> x mod k" "x mod k < k"
    using assms by simp_all
qed

lemma range_consts: "DAY_US = 86400000000" "(MAXORDINAL + 1) * DAY_US = 315537984000000000"
  "MAXORDINAL = 3652059"
  by (simp_all add: DAY_US_def MAXORDINAL_def)

lemma time_of_day_split:
  assumes "0 \<le> u" "u < DAY_US"
  obtains h mi se um where
    "u div 1000000 div 3600 = h" "u div 1000000 mod 3600 div 60 = mi"
    "u div 1000000 mod 3600 mod 60 = se" "u mod 1000000 = um"
    "0 \<le> h" "h \<le> 23" "0 \<le> mi" "mi \<le> 59" "0 \<le> se" "se \<le> 59" "0 \<le> um" "um \<le> 999999"
    "(h * 3600 + mi * 60 + se) * 1000000 + um = u"
proof -
  obtain s um where s: "u div 1000000 = s" "u mod 1000000 = um"
    and a: "u = 1000000 * s + um" "0 \<le> um" "um < 1000000"
    using div_mod_ex [of 1000000 u] by auto
  obtain h r where h: "s div 3600 = h" "s mod 3600 = r"
    and b: "s = 3600 * h + r" "0 \<le> r" "r < 3600"
    using div_mod_ex [of 3600 s] by auto
  obtain mi se where mi: "r div 60 = mi" "r mod 60 = se"
    and c: "r = 60 * mi + se" "0 \<le> se" "se < 60"
    using div_mod_ex [of 60 r] by auto
  have u: "u < 86400000000"
    using assms(2) by (simp add: DAY_US_def)
  have rg: "0 \<le> h" "h \<le> 23" "0 \<le> mi" "mi \<le> 59" "0 \<le> se" "se \<le> 59" "0 \<le> um" "um \<le> 999999"
    using assms(1) u a b c by linarith+
  have sum: "(h * 3600 + mi * 60 + se) * 1000000 + um = u"
    unfolding a(1) b(1) c(1) by (simp add: algebra_simps)
  have eqs: "u div 1000000 div 3600 = h" "u div 1000000 mod 3600 div 60 = mi"
    "u div 1000000 mod 3600 mod 60 = se" "u mod 1000000 = um"
    unfolding s h mi by (rule refl)+
  show ?thesis
    using that [OF eqs rg sum] .
qed

lemma time_of_day_range:
  assumes "valid_datetime dt"
  shows "0 \<le> (dt_hour dt * 3600 + dt_minute dt * 60 + dt_second dt) * 1000000 + dt_microsecond dt \<and>
         (dt_hour dt * 3600 + dt_minute dt * 60 + dt_second dt) * 1000000 + dt_microsecond dt < DAY_US"
  using assms unfolding valid_datetime_def DAY_US_def by (simp add: algebra_simps)

lemma valid_datetime_ordinal:
  assumes "valid_datetime dt"
  shows "1 \<le> ymd2ord (dt_year dt) (dt_month dt) (dt_day dt) \<and>
         ymd2ord (dt_year dt) (dt_month dt) (dt_day dt) \<le> MAXORDINAL"
  using assms by (intro ymd2ord_bounds) (simp_all add: valid_datetime_def)

lemma datetime_us_range:
  assumes "valid_datetime dt"
  shows "DAY_US \<le> datetime_us dt \<and> datetime_us dt < (MAXORDINAL + 1) * DAY_US"
  using valid_datetime_ordinal [OF assms] time_of_day_range [OF assms]
  unfolding datetime_us_def DAY_US_def MAXORDINAL_def by (simp add: algebra_simps)

lemma datetime_sub_in_range:
  assumes "valid_datetime dt"
    and "DAY_US \<le> datetime_us dt - td" "datetime_us dt - td < (MAXORDINAL + 1) * DAY_US"
  shows "\<exists>dt'. datetime_sub dt td = Inr dt' \<and> valid_datetime dt' \<and>
           datetime_us dt' = datetime_us dt - td"
proof -
  define total where "total = datetime_us dt + (- td)"
  have t: "86400000000 \<le> total" "total < 315537984000000000"
    using assms(2,3) unfolding range_consts by (simp_all add: total_def)
  obtain days u where du: "total div DAY_US = days" "total mod DAY_US = u"
    and dm: "total = 86400000000 * days + u" "0 \<le> u" "u < 86400000000"
    using div_mod_ex [of 86400000000 total] unfolding range_consts by auto
  have days: "0 < days" "days \<le> 3652059"
    using t dm by linarith+
  then have inr: "(0 < days \<and> days \<le> MAXORDINAL) = True"
    by (simp add: MAXORDINAL_def)
  obtain qn rn where qn: "(- td) div DAY_US = qn"
    and neg: "- td = 86400000000 * qn + rn" "0 \<le> rn" "rn < 86400000000"
    using div_mod_ex [of 86400000000 "- td"] unfolding range_consts by auto
  have own: "86400000000 \<le> datetime_us dt" "datetime_us dt < 315537984000000000"
    using datetime_us_range [OF assms(1)] unfolding range_consts by simp_all
  have "- 999999999 \<le> qn" "qn \<le> 999999999"
    using neg own t unfolding total_def by linarith+
  then have chk: "(999999999 < \<bar>qn\<bar>) = False"
    by simp
  obtain y m d where ymd: "ord2ymd days = (y, m, d)"
    by (cases "ord2ymd days") auto
  have tod: "0 \<le> u" "u < DAY_US"
    using dm unfolding range_consts by simp_all
  obtain h mi se um where eqs: "u div 1000000 div 3600 = h" "u div 1000000 mod 3600 div 60 = mi"
    "u div 1000000 mod 3600 mod 60 = se" "u mod 1000000 = um"
    and rg: "0 \<le> h" "h \<le> 23" "0 \<le> mi" "mi \<le> 59" "0 \<le> se" "se \<le> 59" "0 \<le> um" "um \<le> 999999"
    and sum: "(h * 3600 + mi * 60 + se) * 1000000 + um = u"
    using time_of_day_split [OF tod] by blast
  have res: "datetime_sub dt td =
      Inr \<lparr>dt_year = y, dt_month = m, dt_day = d, dt_hour = h, dt_minute = mi, dt_second = se,
           dt_microsecond = um\<rparr>"
    unfolding datetime_sub_def Let_def total_def [symmetric] du qn eqs chk inr ymd
    by simp
  have date: "1 \<le> m \<and> m \<le> 12 \<and> 1 \<le> d \<and> d \<le> days_in_month y m \<and> ymd2ord y m d = days"
    using ymd by (rule ord2ymd_correct)
  have year: "1 \<le> y \<and> y \<le> 9999"
    using days ymd by (intro ord2ymd_year_bounds [of days y m d]) (simp_all add: MAXORDINAL_def)
  have valid: "valid_datetime \<lparr>dt_year = y, dt_month = m, dt_day = d, dt_hour = h,
      dt_minute = mi, dt_second = se, dt_microsecond = um\<rparr>"
    using date year rg by (simp add: valid_datetime_def)
  have "datetime_us \<lparr>dt_year = y, dt_month = m, dt_day = d, dt_hour = h,
      dt_minute = mi, dt_second = se, dt_microsecond = um\<rparr> = days * 86400000000 + u"
    using date sum by (simp add: datetime_us_def range_consts)
  also have "\<dots> = datetime_us dt - td"
    using dm(1) by (simp add: total_def)
  finally show ?thesis
    using res valid by blast
qed


lemma datetime_us_inj:
  assumes "valid_datetime dt" "valid_datetime dt'" "datetime_us dt = datetime_us dt'"
  shows "dt = dt'"
proof -
  define n where "n = ymd2ord (dt_year dt) (dt_month dt) (dt_day dt)"
  define n' where "n' = ymd2ord (dt_year dt') (dt_month dt') (dt_day dt')"
  define ms where "ms = dt_minute dt * 60 + dt_second dt"
  define ms' where "ms' = dt_minute dt' * 60 + dt_second dt'"
  define S where "S = dt_hour dt * 3600 + ms"
  define S' where "S' = dt_hour dt' * 3600 + ms'"
  have f: "0 \<le> dt_hour dt" "0 \<le> dt_minute dt" "dt_minute dt \<le> 59" "0 \<le> dt_second dt"
    "dt_second dt \<le> 59" "0 \<le> dt_microsecond dt" "dt_microsecond dt \<le> 999999" "dt_hour dt \<le> 23"
    using assms(1) by (simp_all add: valid_datetime_def)
  have f': "0 \<le> dt_hour dt'" "0 \<le> dt_minute dt'" "dt_minute dt' \<le> 59" "0 \<le> dt_second dt'"
    "dt_second dt' \<le> 59" "0 \<le> dt_microsecond dt'" "dt_microsecond dt' \<le> 999999" "dt_hour dt' \<le> 23"
    using assms(2) by (simp_all add: valid_datetime_def)
  have ms: "0 \<le> ms" "ms < 3600" "0 \<le> ms'" "ms' < 3600"
    using f f' unfolding ms_def ms'_def by linarith+
  have S: "0 \<le> S" "S < 86400" "0 \<le> S'" "S' < 86400"
    using f f' ms unfolding S_def S'_def by linarith+
  have eq: "n * 86400000000 + (S * 1000000 + dt_microsecond dt) =
            n' * 86400000000 + (S' * 1000000 + dt_microsecond dt')"
    using assms(3) by (simp add: datetime_us_def n_def n'_def S_def S'_def ms_def ms'_def DAY_US_def)
  have ord: "n = n'"
    using eq S f(6,7) f'(6,7) by linarith
  have SS: "S = S'"
    using eq ord f(6,7) f'(6,7) by linarith
  have us: "dt_microsecond dt = dt_microsecond dt'"
    using eq ord SS by simp
  have h: "dt_hour dt = dt_hour dt'"
    using SS ms unfolding S_def S'_def by linarith
  have mm: "ms = ms'"
    using SS h unfolding S_def S'_def by simp
  have mi: "dt_minute dt = dt_minute dt'"
    using mm f f' unfolding ms_def ms'_def by linarith
  have se: "dt_second dt = dt_second dt'"
    using mm mi unfolding ms_def ms'_def by simp
  have date: "dt_year dt = dt_year dt' \<and> dt_month dt = dt_month dt' \<and> dt_day dt = dt_day dt'"
    using assms(1,2) ord unfolding n_def n'_def
    by (intro ymd2ord_inj) (simp_all add: valid_datetime_def)
  show ?thesis
    using date h mi se us by (intro datetime.equality) simp_all
qed

lemma datetime_sub_zero:
  assumes "valid_datetime dt"
  shows "datetime_sub dt 0 = Inr dt"
proof -
  obtain dt' where r: "datetime_sub dt 0 = Inr dt'" "valid_datetime dt'"
    "datetime_us dt' = datetime_us dt - 0"
    using datetime_sub_in_range [of dt 0] datetime_us_range [OF assms] assms by auto
  then have "dt' = dt"
    using assms by (intro datetime_us_inj) simp_all
  then show ?thesis
    using r by simp
qed


lemma timedelta_hours_zero: "timedelta_hours 0 = Inr 0"
  by (simp add: timedelta_hours_def py_int_def py_round_def DAY_US_def)

subsection \<open>Parsing and construction\<close>




lemma mk_datetime_Inr:
  "mk_datetime y m d h mi = Inr dt \<longleftrightarrow>
     1 \<le> y \<and> y \<le> 9999 \<and> 1 \<le> m \<and> m \<le> 12 \<and> 1 \<le> d \<and> d \<le> days_in_month y m \<and>
     0 \<le> h \<and> h \<le> 23 \<and> 0 \<le> mi \<and> mi \<le> 59 \<and>
     dt = \<lparr>dt_year = y, dt_month = m, dt_day = d, dt_hour = h, dt_minute = mi,
           dt_second = 0, dt_microsecond = 0\<rparr>"
  by (auto simp: mk_datetime_def)


lemma dt_local_of_valid:
  assumes "dt_local_of b = Inr dt"
  shows "valid_datetime dt"
  using assms
  by (auto simp: dt_local_of_def mk_datetime_Inr valid_datetime_def
      split: option.splits sum.splits list.splits)



lemma AstroCalc_of_dt_ut:
  "AstroCalc p b =
     (case dt_ut_of b of
        Inl e \<Rightarrow> Inl e
      | Inr u \<Rightarrow>
          (case birth_lat b of
             None \<Rightarrow> Inl KeyError
           | Some la \<Rightarrow>
               (case birth_lon b of
                  None \<Rightarrow> Inl KeyError
                | Some lo \<Rightarrow>
                    Inr \<lparr>birth = b,
                         julian_day = swe_julday p (dt_year u) (dt_month u) (dt_day u)
                           (of_int (dt_hour u) + of_int (dt_minute u) / 60),
                         lat = la, lon = lo\<rparr>)))"
  by (simp add: AstroCalc_def compute_julian_day_def Let_def split: sum.splits)







text \<open>
  C10. With no \<open>tz\<close> entry in the birth dict the offset is 0.0: for a valid local date
  and time, and a location, the chart is built, the universal-time datetime is the local
  one, and the result is the same as with an explicit offset of 0.
\<close>

theorem tz_absent_defaults_to_zero:
  assumes "birth_tz b = None" "dt_local_of b = Inr dt_local"
    "birth_lat b = Some la" "birth_lon b = Some lo"
  shows "tz_of b = 0 \<and> dt_ut_of b = Inr dt_local \<and>
         dt_ut_of b = dt_ut_of (b\<lparr>birth_tz := Some 0\<rparr>) \<and>
         AstroCalc p b =
           Inr \<lparr>birth = b,
                julian_day =
                  swe_julday p (dt_year dt_local) (dt_month dt_local) (dt_day dt_local)
                    (of_int (dt_hour dt_local) + of_int (dt_minute dt_local) / 60),
                lat = la, lon = lo\<rparr>"
proof -
  have z: "tz_of b = 0"
    using assms(1) by (simp add: tz_of_def)
  have v: "valid_datetime dt_local"
    using assms(2) by (rule dt_local_of_valid)
  have u: "dt_ut_of b = Inr dt_local"
    using assms(2) z v by (simp add: dt_ut_of_def timedelta_hours_zero datetime_sub_zero)
  have e: "dt_local_of (b\<lparr>birth_tz := Some 0\<rparr>) = dt_local_of b" "tz_of (b\<lparr>birth_tz := Some 0\<rparr>) = 0"
    by (simp_all add: dt_local_of_def tz_of_def split: option.splits sum.splits list.splits)
  have "dt_ut_of (b\<lparr>birth_tz := Some 0\<rparr>) = dt_ut_of b"
    unfolding dt_ut_of_def z e by (rule refl)
  then show ?thesis
    using z u assms(3,4) by (simp add: AstroCalc_of_dt_ut)
qed

theorem tz_absent_defaults_to_zero_witness:
  "birth_tz (sample_birth\<lparr>birth_tz := None\<rparr>) = None \<and>
   dt_local_of (sample_birth\<lparr>birth_tz := None\<rparr>) =
     Inr \<lparr>dt_year = 2006, dt_month = 10, dt_day = 12, dt_hour = 20, dt_minute = 27,
          dt_second = 0, dt_microsecond = 0\<rparr> \<and>
   dt_ut_of (sample_birth\<lparr>birth_tz := None\<rparr>) =
     Inr \<lparr>dt_year = 2006, dt_month = 10, dt_day = 12, dt_hour = 20, dt_minute = 27,
          dt_second = 0, dt_microsecond = 0\<rparr> \<and>
   (\<exists>ac. AstroCalc (stub_ephemeris (\<lambda>_. 0) 0) (sample_birth\<lparr>birth_tz := None\<rparr>) = Inr ac)"
proof -
  have a: "birth_tz (sample_birth\<lparr>birth_tz := None\<rparr>) = None"
    by simp
  have l: "dt_local_of (sample_birth\<lparr>birth_tz := None\<rparr>) =
     Inr \<lparr>dt_year = 2006, dt_month = 10, dt_day = 12, dt_hour = 20, dt_minute = 27,
          dt_second = 0, dt_microsecond = 0\<rparr>"
    by code_simp
  have la: "birth_lat (sample_birth\<lparr>birth_tz := None\<rparr>) = Some (286139 / 10000)"
    "birth_lon (sample_birth\<lparr>birth_tz := None\<rparr>) = Some (772090 / 10000)"
    by (simp_all add: sample_birth_def)
  show ?thesis
    using tz_absent_defaults_to_zero [OF a l la, of "stub_ephemeris (\<lambda>_. 0) 0"] a l
    by simp
qed

subsection \<open>Dependence on the provider\<close>

lemma planet_longitudes_cong:
  assumes "\<forall>pid \<in> snd ` set PLANETS.
             swe_calc_ut p (julian_day ac) pid = swe_calc_ut q (julian_day ac) pid"
  shows "planet_longitudes p ac = planet_longitudes q ac"
  using assms unfolding planet_longitudes_def by (auto simp: PLANETS_def)

lemma ascendant_cong:
  assumes "swe_houses p (julian_day ac) (lat ac) (lon ac) =
           swe_houses q (julian_day ac) (lat ac) (lon ac)"
  shows "ascendant p ac = ascendant q ac"
  using assms by (simp add: ascendant_def)

text \<open>
  C9. The model is a function of the birth dict and the provider, so equal inputs give
  equal results. More is true: the results depend on the provider only through the
  values the code asks for. Two providers that agree on the Julian Day of the
  universal-time datetime build the same object; two providers that agree, at that
  Julian Day, on the seven bodies and on the ascendant at the location give the same
  chart and the same result of each of the three rules.
\<close>

theorem results_determined_by_queried_values:
  assumes "\<forall>u. dt_ut_of b = Inr u \<longrightarrow>
             swe_julday p (dt_year u) (dt_month u) (dt_day u)
               (of_int (dt_hour u) + of_int (dt_minute u) / 60) =
             swe_julday q (dt_year u) (dt_month u) (dt_day u)
               (of_int (dt_hour u) + of_int (dt_minute u) / 60)"
    and "\<forall>pid \<in> snd ` set PLANETS.
           swe_calc_ut p (julian_day ac) pid = swe_calc_ut q (julian_day ac) pid"
    and "swe_houses p (julian_day ac) (lat ac) (lon ac) =
         swe_houses q (julian_day ac) (lat ac) (lon ac)"
  shows "AstroCalc p b = AstroCalc q b \<and>
         compute_all p ac = compute_all q ac \<and>
         ManglikRule_check p ac = ManglikRule_check q ac \<and>
         MoonSignRule_get p ac = MoonSignRule_get q ac \<and>
         current_dasha p ac = current_dasha q ac"
proof -
  have pl: "planet_longitudes p ac = planet_longitudes q ac"
    using assms(2) by (rule planet_longitudes_cong)
  have asc: "ascendant p ac = ascendant q ac"
    using assms(3) by (rule ascendant_cong)
  have hs: "house_of_planet p ac l = house_of_planet q ac l" for l
    unfolding house_of_planet_def asc by (rule refl)
  have ms: "moon_sign p ac = moon_sign q ac"
    unfolding moon_sign_def pl by (rule refl)
  have "AstroCalc p b = AstroCalc q b"
    using assms(1)
    by (cases "dt_ut_of b") (simp_all add: AstroCalc_of_dt_ut split: option.splits)
  moreover have "compute_all p ac = compute_all q ac"
    unfolding compute_all_def pl asc hs ms by (rule refl)
  moreover have "ManglikRule_check p ac = ManglikRule_check q ac"
    unfolding ManglikRule_check_def pl hs by (rule refl)
  moreover have "MoonSignRule_get p ac = MoonSignRule_get q ac"
    unfolding MoonSignRule_get_def ms by (rule refl)
  moreover have "current_dasha p ac = current_dasha q ac"
    unfolding current_dasha_def pl by (rule refl)
  ultimately show ?thesis
    by blast
qed

lemma AstroCalc_sample: "AstroCalc (stub_ephemeris f a) sample_birth = Inr sample_calc"
proof -
  have u: "dt_ut_of sample_birth =
           Inr \<lparr>dt_year = 2006, dt_month = 10, dt_day = 12, dt_hour = 14, dt_minute = 57,
                dt_second = 0, dt_microsecond = 0\<rparr>"
    by code_simp
  have o: "ymd2ord 2006 10 12 = 732596"
    by code_simp
  have la: "birth_lat sample_birth = Some (286139 / 10000)"
    "birth_lon sample_birth = Some (772090 / 10000)"
    by (simp_all add: sample_birth_def)
  show ?thesis
    unfolding AstroCalc_of_dt_ut u la
    by (simp add: o stub_ephemeris_def sample_calc_def)
qed

theorem results_determined_by_queried_values_witness:
  "swe_calc_ut (stub_ephemeris (\<lambda>pid. of_int pid * 50 + 15) 10) 0 7 \<noteq>
   swe_calc_ut (stub_ephemeris (\<lambda>pid. if pid \<le> 6 then of_int pid * 50 + 15 else 999) 10) 0 7 \<and>
   AstroCalc (stub_ephemeris (\<lambda>pid. of_int pid * 50 + 15) 10) sample_birth = Inr sample_calc \<and>
   AstroCalc (stub_ephemeris (\<lambda>pid. if pid \<le> 6 then of_int pid * 50 + 15 else 999) 10)
     sample_birth = Inr sample_calc \<and>
   compute_all (stub_ephemeris (\<lambda>pid. of_int pid * 50 + 15) 10) sample_calc =
   compute_all (stub_ephemeris (\<lambda>pid. if pid \<le> 6 then of_int pid * 50 + 15 else 999) 10)
     sample_calc \<and>
   ManglikRule_check (stub_ephemeris (\<lambda>pid. of_int pid * 50 + 15) 10) sample_calc =
   ManglikRule_check (stub_ephemeris (\<lambda>pid. if pid \<le> 6 then of_int pid * 50 + 15 else 999) 10)
     sample_calc \<and>
   MoonSignRule_get (stub_ephemeris (\<lambda>pid. of_int pid * 50 + 15) 10) sample_calc =
   MoonSignRule_get (stub_ephemeris (\<lambda>pid. if pid \<le> 6 then of_int pid * 50 + 15 else 999) 10)
     sample_calc \<and>
   current_dasha (stub_ephemeris (\<lambda>pid. of_int pid * 50 + 15) 10) sample_calc =
   current_dasha (stub_ephemeris (\<lambda>pid. if pid \<le> 6 then of_int pid * 50 + 15 else 999) 10)
     sample_calc"
proof -
  let ?p = "stub_ephemeris (\<lambda>pid. of_int pid * 50 + 15) 10"
  let ?q = "stub_ephemeris (\<lambda>pid. if pid \<le> 6 then of_int pid * 50 + 15 else 999) 10"
  have h1: "\<forall>u. dt_ut_of sample_birth = Inr u \<longrightarrow>
             swe_julday ?p (dt_year u) (dt_month u) (dt_day u)
               (of_int (dt_hour u) + of_int (dt_minute u) / 60) =
             swe_julday ?q (dt_year u) (dt_month u) (dt_day u)
               (of_int (dt_hour u) + of_int (dt_minute u) / 60)"
    by (simp add: stub_ephemeris_def)
  have h2: "\<forall>pid \<in> snd ` set PLANETS.
           swe_calc_ut ?p (julian_day sample_calc) pid = swe_calc_ut ?q (julian_day sample_calc) pid"
    by (simp add: stub_ephemeris_def PLANETS_def)
  have h3: "swe_houses ?p (julian_day sample_calc) (lat sample_calc) (lon sample_calc) =
         swe_houses ?q (julian_day sample_calc) (lat sample_calc) (lon sample_calc)"
    by (simp add: stub_ephemeris_def)
  have ne: "swe_calc_ut ?p 0 7 \<noteq> swe_calc_ut ?q 0 7"
    by (simp add: stub_ephemeris_def)
  show ?thesis
    using results_determined_by_queried_values [OF h1 h2 h3] ne
      AstroCalc_sample [of "\<lambda>pid. of_int pid * 50 + 15" 10]
    by simp
qed

end
